theory Spec2Isabelle
  imports Main "HOL-Library.Word" "HOL-Library.Sublist"
begin

section \<open>JavaScript values\<close>

text \<open>
  A JavaScript string is a sequence of UTF-16 code units. ASCII literals of the source are
  written with \<open>ascii\<close>; the Korean literals are given by their code units.
\<close>

type_synonym jsstring = "16 word list"

definition ascii :: "string \<Rightarrow> jsstring" where
  "ascii s = map (\<lambda>c. of_nat (of_char c)) s"

text \<open>
  \<open>String.prototype.trim\<close> removes the WhiteSpace and LineTerminator code points of
  ECMAScript from both ends: TAB, LF, VT, FF, CR, SP, NBSP, the other space separators
  (U+1680, U+2000 to U+200A, U+202F, U+205F, U+3000), LS, PS and the byte order mark.
  All of them are single code units.
\<close>

definition is_ws :: "16 word \<Rightarrow> bool" where
  "is_ws c \<longleftrightarrow>
     c \<in> set [0x9, 0xA, 0xB, 0xC, 0xD, 0x20, 0xA0, 0x1680, 0x2028, 0x2029, 0x202F, 0x205F,
              0x3000, 0xFEFF]
     \<or> (0x2000 \<le> c \<and> c \<le> 0x200A)"

definition trim :: "jsstring \<Rightarrow> jsstring" where
  "trim s = rev (dropWhile is_ws (rev (dropWhile is_ws s)))"

text \<open>
  The value \<open>response.json()\<close> resolves to. A number is held as the string that
  \<open>Number::toString\<close> gives for it; the component does nothing else with a number.
  An object is the list of its own properties, read with \<open>map_of\<close>.
\<close>

datatype json =
    JNull
  | JBool bool
  | JNum jsstring
  | JStr jsstring
  | JArr "json list"
  | JObj "(jsstring \<times> json) list"

text \<open>
  \<open>data?.k\<close> for the keys the source reads (\<open>reply\<close>, \<open>message\<close>, \<open>content\<close>,
  \<open>is_safe\<close>): none of them is defined on a built-in prototype, so the access yields the
  own property of an object and \<open>undefined\<close> (here \<open>None\<close>) on everything else,
  \<open>null\<close> included.
\<close>

fun opt_get :: "json \<Rightarrow> jsstring \<Rightarrow> json option" where
  "opt_get (JObj kvs) k = map_of kvs k"
| "opt_get _ k = None"

fun nullish :: "json option \<Rightarrow> bool" where
  "nullish None = True"
| "nullish (Some JNull) = True"
| "nullish (Some _) = False"

text \<open>\<open>a ?? b\<close>, and \<open>a ?? b\<close> where \<open>b\<close> is a literal.\<close>

definition coalesce :: "json option \<Rightarrow> json option \<Rightarrow> json option" where
  "coalesce a b = (if nullish a then b else a)"

definition coalesce_lit :: "json option \<Rightarrow> json \<Rightarrow> json" where
  "coalesce_lit a b = (case a of None \<Rightarrow> b | Some JNull \<Rightarrow> b | Some v \<Rightarrow> v)"

datatype js_error = TypeError

text \<open>
  \<open>v + extra\<close> with a string \<open>extra\<close> concatenates \<open>ToString(ToPrimitive(v))\<close> and
  \<open>extra\<close>. For a value that came out of \<open>JSON.parse\<close>:
  a string is itself, a boolean is \<open>true\<close> or \<open>false\<close>, \<open>null\<close> is \<open>null\<close>;
  an array is converted by \<open>Array.prototype.join\<close>, which writes \<open>null\<close> elements as
  the empty string and converts the others, separated by commas;
  an object is converted by \<open>Object.prototype.toString\<close>, which gives
  \<open>[object Object]\<close>, unless the object has an own property \<open>toString\<close>: that
  property shadows the method, is not callable (no parsed value is), \<open>valueOf\<close> returns
  no primitive, and the conversion throws a TypeError.
\<close>

fun ToString :: "json \<Rightarrow> js_error + jsstring"
  and join :: "json list \<Rightarrow> js_error + jsstring" where
  "ToString JNull = Inr (ascii ''null'')"
| "ToString (JBool b) = Inr (if b then ascii ''true'' else ascii ''false'')"
| "ToString (JNum n) = Inr n"
| "ToString (JStr s) = Inr s"
| "ToString (JArr xs) = join xs"
| "ToString (JObj kvs) =
     (if map_of kvs (ascii ''toString'') \<noteq> None then Inl TypeError
      else Inr (ascii ''[object Object]''))"
| "join [] = Inr []"
| "join (x # xs) =
     (case (if x = JNull then Inr [] else ToString x) of
        Inl e \<Rightarrow> Inl e
      | Inr a \<Rightarrow>
          (if xs = [] then Inr a
           else case join xs of Inl e \<Rightarrow> Inl e | Inr b \<Rightarrow> Inr (a @ ascii '','' @ b)))"

section \<open>The two front ends\<close>

text \<open>
  The repository holds two copies of the chat component. \<open>First\<close> is
  \<open>src/unnamed/part_000\<close> (same-origin endpoint, reply read from \<open>reply\<close> or
  \<open>message\<close>); \<open>Second\<close> is \<open>src/front/src/App.jsx\<close> (endpoint on port 8000,
  reply read from \<open>content\<close>, annotated through \<open>is_safe\<close>).
\<close>

datatype variant = First | Second

record message =
  role :: jsstring
  content :: json

text \<open>The four \<open>useState\<close> cells of \<open>App\<close>.\<close>

record state =
  messages :: "message list"
  input :: jsstring
  isLoading :: bool
  error :: jsstring

text \<open>
  The arguments of \<open>fetch\<close>; \<open>http_method\<close> is the option \<open>method\<close>, and \<open>body\<close> is the
  value handed to \<open>JSON.stringify\<close>.
\<close>

record request =
  url :: jsstring
  http_method :: jsstring
  headers :: "(jsstring \<times> jsstring) list"
  body :: json

text \<open>
  How the awaited \<open>fetch\<close> comes back: the promise rejects (network error), or it
  resolves to a response with an HTTP status whose \<open>json()\<close> either rejects (\<open>None\<close>,
  the body is no JSON) or resolves to a value.
\<close>

datatype fetch_result = Rejected | Responded nat "json option"

definition ok :: "nat \<Rightarrow> bool" where
  "ok status \<longleftrightarrow> 200 \<le> status \<and> status \<le> 299"

subsection \<open>Literals of the source\<close>

definition greeting :: "variant \<Rightarrow> jsstring" where
  "greeting v =
     (case v of
        First \<Rightarrow>
          [0xC548, 0xB155, 0xD558, 0xC138, 0xC694, 0x21, 0x20, 0xAD81, 0xAE08, 0xD55C, 0x20,
           0xB0B4, 0xC6A9, 0xC744, 0x20, 0xC785, 0xB825, 0xD558, 0xBA74, 0x20, 0xBC14, 0xB85C,
           0x20, 0xB2F5, 0xBCC0, 0xD574, 0xB4DC, 0xB9B4, 0xAC8C, 0xC694, 0x2E]
      | Second \<Rightarrow>
          [0xC548, 0xB155, 0xD558, 0xC138, 0xC694, 0x21, 0x20, 0xB0B4, 0xC6A9, 0xC744, 0x20,
           0xC785, 0xB825, 0xD558, 0xC2DC, 0xBA74, 0x20, 0xC801, 0xC808, 0xD55C, 0x20, 0xBB38,
           0xC7A5, 0xC778, 0xC9C0, 0x20, 0xD310, 0xB2E8, 0xD574, 0xB4DC, 0xB9B4, 0xAC8C, 0xC694,
           0x2E])"

definition initialMessages :: "variant \<Rightarrow> message list" where
  "initialMessages v = [\<lparr>role = ascii ''assistant'', content = JStr (greeting v)\<rparr>]"

text \<open>The reply used when the body names no reply (the same in both copies).\<close>

definition fallback_reply :: jsstring where
  "fallback_reply =
     [0xB2F5, 0xBCC0, 0xC744, 0x20, 0xAC00, 0xC838, 0xC624, 0xC9C0, 0x20, 0xBABB, 0xD588,
      0xC2B5, 0xB2C8, 0xB2E4, 0x2E]"

text \<open>The notice appended in the second copy when \<open>is_safe === false\<close>.\<close>

definition filter_notice :: jsstring where
  "filter_notice =
     [0x20, 0x28, 0xD544, 0xD130, 0xC5D0, 0x20, 0xC758, 0xD574, 0x20, 0xBD80, 0xC801, 0xC808,
      0xD55C, 0x20, 0xD45C, 0xD604, 0xC73C, 0xB85C, 0x20, 0xD310, 0xB2E8, 0xB418, 0xC5C8,
      0xC2B5, 0xB2C8, 0xB2E4, 0x2E, 0x29]"

text \<open>The text given to \<open>setError\<close> in the \<open>catch\<close> block (the same in both copies).\<close>

definition error_message :: jsstring where
  "error_message =
     [0xBA54, 0xC2DC, 0xC9C0, 0xB97C, 0x20, 0xBCF4, 0xB0B4, 0xC9C0, 0x20, 0xBABB, 0xD588,
      0xC5B4, 0xC694, 0x2E, 0x20, 0xC11C, 0xBC84, 0x20, 0xC0C1, 0xD0DC, 0xB97C, 0x20, 0xD655,
      0xC778, 0xD574, 0xC8FC, 0xC138, 0xC694, 0x2E]"

definition api_url :: "variant \<Rightarrow> jsstring" where
  "api_url v =
     (case v of First \<Rightarrow> ascii ''/api/chat''
      | Second \<Rightarrow> ascii ''http://localhost:8000/api/chat'')"

subsection \<open>\<open>handleSubmit\<close>\<close>

definition message_json :: "message \<Rightarrow> json" where
  "message_json m = JObj [(ascii ''role'', JStr (role m)), (ascii ''content'', content m)]"

text \<open>
  The part of \<open>handleSubmit\<close> before the \<open>await\<close>. The handler closes over the
  values of the render it was created in; the component is rendered again after every
  state change and before the next event, so these are the current state.
  \<open>event.preventDefault()\<close> touches the event only. The result is the new state and the
  request passed to \<open>fetch\<close>, if one is.
\<close>

definition handleSubmit_begin :: "variant \<Rightarrow> state \<Rightarrow> state \<times> request option" where
  "handleSubmit_begin v s =
     (let trimmedInput = trim (input s) in
      if trimmedInput = [] \<or> isLoading s then (s, None)
      else
        let nextMessages = messages s @ [\<lparr>role = ascii ''user'', content = JStr trimmedInput\<rparr>]
        in (s\<lparr>messages := nextMessages, input := [], error := [], isLoading := True\<rparr>,
            Some \<lparr>url = api_url v, http_method = ascii ''POST'',
                  headers = [(ascii ''Content-Type'', ascii ''application/json'')],
                  body = JObj [(ascii ''messages'', JArr (map message_json nextMessages))]\<rparr>))"

text \<open>
  The content of the assistant message. In the first copy it is the value
  \<open>data?.reply ?? data?.message ?? '...'\<close> as it is. In the second copy it is
  \<open>reply + extra\<close>, a string concatenation that converts \<open>reply\<close> and can throw.
\<close>

definition extra :: "json \<Rightarrow> jsstring" where
  "extra data = (if opt_get data (ascii ''is_safe'') = Some (JBool False) then filter_notice else [])"

definition assistant_content :: "variant \<Rightarrow> json \<Rightarrow> js_error + json" where
  "assistant_content v data =
     (case v of
        First \<Rightarrow>
          Inr (coalesce_lit
                 (coalesce (opt_get data (ascii ''reply'')) (opt_get data (ascii ''message'')))
                 (JStr fallback_reply))
      | Second \<Rightarrow>
          (let reply = coalesce_lit (opt_get data (ascii ''content'')) (JStr fallback_reply)
           in case ToString reply of
                Inl e \<Rightarrow> Inl e
              | Inr str \<Rightarrow> Inr (JStr (str @ extra data))))"

text \<open>The \<open>catch\<close> block followed by \<open>finally\<close>.\<close>

definition failed :: "state \<Rightarrow> state" where
  "failed s = s\<lparr>error := error_message, isLoading := False\<rparr>"

text \<open>
  The part of \<open>handleSubmit\<close> after the \<open>await\<close>, run on the state at that moment.
  A rejected \<open>fetch\<close>, a status outside 200 to 299 and a rejected \<open>json()\<close> all end in
  the \<open>catch\<close> block. Otherwise the updater \<open>(prev) => [...prev, {...}]\<close> is queued and
  \<open>finally\<close> resets \<open>isLoading\<close>. React runs the updater, not \<open>handleSubmit\<close>: an
  exception of its eager run inside \<open>setMessages\<close> is suppressed there and raised again
  when the component is rendered. So if \<open>reply + extra\<close> throws, the \<open>catch\<close> block is
  not reached, rendering fails and \<open>App\<close>, which has no error boundary, is unmounted with
  none of the queued updates applied: the result is \<open>Inl\<close>.
\<close>

definition handleSubmit_resume :: "variant \<Rightarrow> fetch_result \<Rightarrow> state \<Rightarrow> js_error + state" where
  "handleSubmit_resume v res s =
     (case res of
        Rejected \<Rightarrow> Inr (failed s)
      | Responded status parsed \<Rightarrow>
          if \<not> ok status then Inr (failed s)
          else case parsed of
                 None \<Rightarrow> Inr (failed s)
               | Some data \<Rightarrow>
                   (case assistant_content v data of
                      Inl e \<Rightarrow> Inl e
                    | Inr c \<Rightarrow>
                        Inr (s\<lparr>messages := messages s @ [\<lparr>role = ascii ''assistant'', content = c\<rparr>],
                               isLoading := False\<rparr>)))"

text \<open>One whole call of \<open>handleSubmit\<close>, given how its \<open>fetch\<close> comes back.\<close>

definition handleSubmit :: "variant \<Rightarrow> state \<Rightarrow> fetch_result \<Rightarrow> js_error + state" where
  "handleSubmit v s res =
     (case handleSubmit_begin v s of
        (s', None) \<Rightarrow> Inr s'
      | (s', Some req) \<Rightarrow> handleSubmit_resume v res s')"

subsection \<open>Rendering\<close>

text \<open>
  \<open>App\<close> renders every message as \<open><p>{message.content}</p>\<close>. As a child React
  accepts a string, a number, a boolean, \<open>null\<close> and an array of children it accepts;
  for an object that is no React element, and no parsed value is one, it throws
  (objects are not valid as a React child), and \<open>App\<close> is unmounted.
\<close>

fun valid_child :: "json \<Rightarrow> bool"
  and valid_children :: "json list \<Rightarrow> bool" where
  "valid_child JNull = True"
| "valid_child (JBool b) = True"
| "valid_child (JNum n) = True"
| "valid_child (JStr s) = True"
| "valid_child (JArr xs) = valid_children xs"
| "valid_child (JObj kvs) = False"
| "valid_children [] = True"
| "valid_children (x # xs) = (valid_child x \<and> valid_children xs)"

definition renders :: "message list \<Rightarrow> bool" where
  "renders ms = list_all (\<lambda>m. valid_child (content m)) ms"

text \<open>The messages of \<open>s'\<close> behind the transcript of \<open>s\<close>.\<close>

definition new_messages :: "state \<Rightarrow> state \<Rightarrow> message list" where
  "new_messages s s' = drop (length (messages s)) (messages s')"

subsection \<open>The component over time\<close>

text \<open>
  The component together with the requests in flight. The events are a change of the
  textarea (\<open>onChange\<close>), a submission of the form, and the return of the oldest request
  in flight. An unmounted component handles no event, and state setters called on it by a
  returning request do nothing.

  React renders the component after each event. The messages that were rendered before
  are accepted again, and a user message is a string, so the render can only throw on an
  assistant message that the event appends. When it does, as when the updater throws,
  nothing is committed and the component is unmounted; \<open>comp\<close> then keeps the last
  state that was rendered.
\<close>

record system =
  comp :: state
  pending :: "request list"
  mounted :: bool

datatype event = Change jsstring | Submit | Resolve fetch_result

definition init :: "variant \<Rightarrow> system" where
  "init v =
     \<lparr>comp = \<lparr>messages = initialMessages v, input = [], isLoading = False, error = []\<rparr>,
      pending = [], mounted = True\<rparr>"

fun step :: "variant \<Rightarrow> event \<Rightarrow> system \<Rightarrow> system" where
  "step v (Change text) sys =
     (if mounted sys then sys\<lparr>comp := (comp sys)\<lparr>input := text\<rparr>\<rparr> else sys)"
| "step v Submit sys =
     (if mounted sys then
        (case handleSubmit_begin v (comp sys) of
           (s', None) \<Rightarrow> sys\<lparr>comp := s'\<rparr>
         | (s', Some req) \<Rightarrow> sys\<lparr>comp := s', pending := pending sys @ [req]\<rparr>)
      else sys)"
| "step v (Resolve res) sys =
     (case pending sys of
        [] \<Rightarrow> sys
      | req # rest \<Rightarrow>
          if mounted sys then
            (case handleSubmit_resume v res (comp sys) of
               Inl e \<Rightarrow> sys\<lparr>pending := rest, mounted := False\<rparr>
             | Inr s' \<Rightarrow>
                 if renders (new_messages (comp sys) s') then sys\<lparr>comp := s', pending := rest\<rparr>
                 else sys\<lparr>pending := rest, mounted := False\<rparr>)
          else sys\<lparr>pending := rest\<rparr>)"

fun run :: "variant \<Rightarrow> event list \<Rightarrow> system \<Rightarrow> system" where
  "run v [] sys = sys"
| "run v (e # es) sys = run v es (step v e sys)"

section \<open>Basic facts\<close>

lemma user_neq_assistant: "ascii ''user'' \<noteq> ascii ''assistant''"
  by (simp add: ascii_def)

lemma begin_accepted:
  "trim (input s) \<noteq> [] \<Longrightarrow> \<not> isLoading s \<Longrightarrow>
   handleSubmit_begin v s =
     (s\<lparr>messages := messages s @ [\<lparr>role = ascii ''user'', content = JStr (trim (input s))\<rparr>],
        input := [], error := [], isLoading := True\<rparr>,
      Some \<lparr>url = api_url v, http_method = ascii ''POST'',
            headers = [(ascii ''Content-Type'', ascii ''application/json'')],
            body = JObj [(ascii ''messages'',
                     JArr (map message_json
                        (messages s @ [\<lparr>role = ascii ''user'', content = JStr (trim (input s))\<rparr>])))]\<rparr>)"
  by (simp add: handleSubmit_begin_def Let_def)

lemma begin_rejected:
  "trim (input s) = [] \<or> isLoading s \<Longrightarrow> handleSubmit_begin v s = (s, None)"
  by (auto simp add: handleSubmit_begin_def Let_def)

lemma error_message_nonempty: "error_message \<noteq> []"
  by (simp add: error_message_def)

lemma filter_notice_nonempty: "filter_notice \<noteq> []"
  by (simp add: filter_notice_def)

lemma last_dropWhile_nonempty:
  "dropWhile P xs \<noteq> [] \<Longrightarrow> last (dropWhile P xs) = last xs"
  by (induction xs) (auto split: if_splits)

lemma trim_ends:
  assumes "trim s \<noteq> []"
  shows "\<not> is_ws (hd (trim s))" and "\<not> is_ws (last (trim s))"
proof -
  let ?t = "dropWhile is_ws s"
  let ?u = "dropWhile is_ws (rev ?t)"
  from assms have u: "?u \<noteq> []" by (simp add: trim_def)
  have t: "?t \<noteq> []"
  proof
    assume "?t = []"
    with u show False by simp
  qed
  have "last (trim s) = hd ?u" by (simp add: trim_def u last_rev)
  with u show "\<not> is_ws (last (trim s))" by (simp add: hd_dropWhile)
  have "hd (trim s) = last ?u" by (simp add: trim_def u hd_rev)
  also have "\<dots> = last (rev ?t)" using u by (simp add: last_dropWhile_nonempty)
  also have "\<dots> = hd ?t" using t by (simp add: last_rev)
  finally show "\<not> is_ws (hd (trim s))" using t by (simp add: hd_dropWhile)
qed

lemma resume_failed:
  "handleSubmit_resume v Rejected s = Inr (failed s)"
  "\<not> ok status \<Longrightarrow> handleSubmit_resume v (Responded status parsed) s = Inr (failed s)"
  "handleSubmit_resume v (Responded status None) s = Inr (failed s)"
  by (simp_all add: handleSubmit_resume_def)

lemma resume_ok:
  "ok status \<Longrightarrow> assistant_content v data = Inr c \<Longrightarrow>
   handleSubmit_resume v (Responded status (Some data)) s =
     Inr (s\<lparr>messages := messages s @ [\<lparr>role = ascii ''assistant'', content = c\<rparr>],
            isLoading := False\<rparr>)"
  by (simp add: handleSubmit_resume_def)

lemma resume_cases:
  "handleSubmit_resume v res s = Inr s' \<Longrightarrow>
   s' = failed s \<or>
   (\<exists>c. s' = s\<lparr>messages := messages s @ [\<lparr>role = ascii ''assistant'', content = c\<rparr>],
               isLoading := False\<rparr>)"
  by (auto simp add: handleSubmit_resume_def split: fetch_result.splits if_splits option.splits sum.splits)

lemma primitive_content_converts:
  assumes "opt_get data k = None \<or> opt_get data k = Some JNull \<or>
           opt_get data k = Some (JBool b) \<or> opt_get data k = Some (JNum n) \<or>
           opt_get data k = Some (JStr x)"
  shows "\<exists>str. ToString (coalesce_lit (opt_get data k) (JStr fallback_reply)) = Inr str"
  using assms by (auto simp add: coalesce_lit_def)

lemma trim_empty_iff: "trim s = [] \<longleftrightarrow> (\<forall>c \<in> set s. is_ws c)"
proof
  assume e: "trim s = []"
  show "\<forall>c \<in> set s. is_ws c"
  proof (rule ccontr)
    assume "\<not> (\<forall>c \<in> set s. is_ws c)"
    then have t: "dropWhile is_ws s \<noteq> []" by (simp add: dropWhile_eq_Nil_conv)
    then have "\<not> is_ws (hd (dropWhile is_ws s))" by (simp add: hd_dropWhile)
    moreover have "hd (dropWhile is_ws s) \<in> set (rev (dropWhile is_ws s))" using t by simp
    ultimately have "dropWhile is_ws (rev (dropWhile is_ws s)) \<noteq> []"
      by (auto simp add: dropWhile_eq_Nil_conv simp del: set_rev)
    with e show False by (simp add: trim_def)
  qed
next
  assume "\<forall>c \<in> set s. is_ws c"
  then have "dropWhile is_ws s = []" by simp
  then show "trim s = []" by (simp only: trim_def rev.simps dropWhile.simps)
qed

lemma ascii_hi: "trim (ascii ''hi'') = ascii ''hi''" "ascii ''hi'' \<noteq> []"
  by (simp_all add: trim_def is_ws_def ascii_def)

lemma ascii_pad: "trim (ascii ''  hi '') = ascii ''hi''"
  by (simp add: trim_def is_ws_def ascii_def)

lemma run_append: "run v (xs @ ys) sys = run v ys (run v xs sys)"
  by (induction xs arbitrary: sys) simp_all

lemma run_changes:
  "mounted sys \<Longrightarrow> \<exists>inp. run v (map Change texts) sys = sys\<lparr>comp := (comp sys)\<lparr>input := inp\<rparr>\<rparr>"
proof (induction texts arbitrary: sys)
  case Nil
  show ?case by (rule exI [of _ "input (comp sys)"]) simp
next
  case (Cons t ts)
  let ?sys = "sys\<lparr>comp := (comp sys)\<lparr>input := t\<rparr>\<rparr>"
  have "mounted ?sys" using Cons.prems by simp
  from Cons.IH [OF this] obtain inp where
    "run v (map Change ts) ?sys = ?sys\<lparr>comp := (comp ?sys)\<lparr>input := inp\<rparr>\<rparr>" by blast
  then have "run v (map Change (t # ts)) sys = sys\<lparr>comp := (comp sys)\<lparr>input := inp\<rparr>\<rparr>"
    using Cons.prems by simp
  then show ?case by blast
qed

lemma resume_input:
  "handleSubmit_resume v res s = Inr s' \<Longrightarrow>
   handleSubmit_resume v res (s\<lparr>input := inp\<rparr>) = Inr (s'\<lparr>input := inp\<rparr>)"
  by (auto simp add: handleSubmit_resume_def failed_def
      split: fetch_result.splits if_splits option.splits sum.splits)

lemma cycle:
  assumes "trim (input s) \<noteq> []" and "\<not> isLoading s" and "handleSubmit v s res = Inr s'"
    and "renders (new_messages (fst (handleSubmit_begin v s)) s')"
  shows "\<exists>inp. run v (Submit # map Change texts @ [Resolve res]) \<lparr>comp = s, pending = [], mounted = True\<rparr>
           = \<lparr>comp = s'\<lparr>input := inp\<rparr>, pending = [], mounted = True\<rparr>"
proof -
  obtain s1 req where b: "handleSubmit_begin v s = (s1, Some req)"
    using assms(1,2) by (simp add: begin_accepted)
  with assms(3) have r: "handleSubmit_resume v res s1 = Inr s'" by (simp add: handleSubmit_def)
  let ?sys1 = "\<lparr>comp = s1, pending = [req], mounted = True\<rparr>"
  have 1: "step v Submit \<lparr>comp = s, pending = [], mounted = True\<rparr> = ?sys1" by (simp add: b)
  obtain inp where 2: "run v (map Change texts) ?sys1 = ?sys1\<lparr>comp := (comp ?sys1)\<lparr>input := inp\<rparr>\<rparr>"
    using run_changes [of ?sys1 v texts] by auto
  have "run v (Submit # map Change texts @ [Resolve res]) \<lparr>comp = s, pending = [], mounted = True\<rparr>
      = step v (Resolve res) (run v (map Change texts) ?sys1)"
    by (simp only: run.simps 1 run_append)
  also have "\<dots> = \<lparr>comp = s'\<lparr>input := inp\<rparr>, pending = [], mounted = True\<rparr>"
    using assms(4) by (simp add: 2 resume_input [OF r] b new_messages_def)
  finally show ?thesis by blast
qed

lemma step_single_flight:
  assumes "pending sys = [] \<and> (mounted sys \<longrightarrow> \<not> isLoading (comp sys)) \<or>
           (\<exists>req. pending sys = [req]) \<and> mounted sys \<and> isLoading (comp sys)"
  shows "pending (step v e sys) = [] \<and>
           (mounted (step v e sys) \<longrightarrow> \<not> isLoading (comp (step v e sys))) \<or>
         (\<exists>req. pending (step v e sys) = [req]) \<and> mounted (step v e sys) \<and>
           isLoading (comp (step v e sys))"
proof (cases e)
  case (Change t)
  with assms show ?thesis by auto
next
  case Submit
  show ?thesis
  proof (cases "mounted sys \<and> trim (input (comp sys)) \<noteq> [] \<and> \<not> isLoading (comp sys)")
    case True
    with assms have "pending sys = []" by blast
    with True show ?thesis by (simp add: Submit begin_accepted)
  next
    case False
    then have "step v Submit sys = sys" by (auto simp add: begin_rejected)
    with assms show ?thesis by (simp only: Submit)
  qed
next
  case (Resolve res)
  show ?thesis
  proof (cases "pending sys")
    case Nil
    with assms show ?thesis by (simp add: Resolve)
  next
    case (Cons req rest)
    with assms have r: "rest = []" and m: "mounted sys" by auto
    show ?thesis
    proof (cases "handleSubmit_resume v res (comp sys)")
      case (Inl err)
      then show ?thesis by (simp add: Resolve Cons r m)
    next
      case (Inr s')
      from resume_cases [OF this] have "\<not> isLoading s'" by (auto simp add: failed_def)
      then show ?thesis
        by (cases "renders (new_messages (comp sys) s')") (simp_all add: Resolve Cons r m Inr)
    qed
  qed
qed

lemma run_single_flight:
  assumes "pending sys = [] \<and> (mounted sys \<longrightarrow> \<not> isLoading (comp sys)) \<or>
           (\<exists>req. pending sys = [req]) \<and> mounted sys \<and> isLoading (comp sys)"
  shows "pending (run v es sys) = [] \<and>
           (mounted (run v es sys) \<longrightarrow> \<not> isLoading (comp (run v es sys))) \<or>
         (\<exists>req. pending (run v es sys) = [req]) \<and> mounted (run v es sys) \<and>
           isLoading (comp (run v es sys))"
  using assms
proof (induction es arbitrary: sys)
  case Nil
  then show ?case by simp
next
  case (Cons e es)
  from Cons.IH [OF step_single_flight [OF Cons.prems, of v e]] show ?case by simp
qed

lemma init_single_flight:
  "pending (init v) = [] \<and> (mounted (init v) \<longrightarrow> \<not> isLoading (comp (init v))) \<or>
   (\<exists>req. pending (init v) = [req]) \<and> mounted (init v) \<and> isLoading (comp (init v))"
  by (simp add: init_def)

lemma step_messages:
  "\<exists>new. messages (comp (step v e sys)) = messages (comp sys) @ new \<and>
     (new = [] \<or>
      (\<exists>text. trim text \<noteq> [] \<and> new = [\<lparr>role = ascii ''user'', content = JStr (trim text)\<rparr>]) \<or>
      (\<exists>c. valid_child c \<and> new = [\<lparr>role = ascii ''assistant'', content = c\<rparr>]))"
proof (cases e)
  case (Change t)
  then show ?thesis by simp
next
  case Submit
  show ?thesis
  proof (cases "mounted sys \<and> trim (input (comp sys)) \<noteq> [] \<and> \<not> isLoading (comp sys)")
    case True
    then have "messages (comp (step v Submit sys)) = messages (comp sys) @
        [\<lparr>role = ascii ''user'', content = JStr (trim (input (comp sys)))\<rparr>]"
      by (simp add: begin_accepted)
    with True show ?thesis unfolding Submit by blast
  next
    case False
    then have "step v Submit sys = sys" by (auto simp add: begin_rejected)
    then show ?thesis by (simp only: Submit) simp
  qed
next
  case (Resolve res)
  show ?thesis
  proof (cases "pending sys")
    case Nil
    then show ?thesis by (simp add: Resolve)
  next
    case (Cons req rest)
    show ?thesis
    proof (cases "handleSubmit_resume v res (comp sys)")
      case (Inl err)
      then show ?thesis by (simp add: Resolve Cons)
    next
      case (Inr s')
      show ?thesis
      proof (cases "mounted sys \<and> renders (new_messages (comp sys) s')")
        case True
        then have c: "comp (step v e sys) = s'" by (simp add: Resolve Cons Inr)
        from resume_cases [OF Inr] show ?thesis
        proof
          assume "s' = failed (comp sys)"
          then show ?thesis by (simp add: c failed_def)
        next
          assume "\<exists>c. s' = (comp sys)\<lparr>messages := messages (comp sys) @
                     [\<lparr>role = ascii ''assistant'', content = c\<rparr>], isLoading := False\<rparr>"
          then obtain a where "s' = (comp sys)\<lparr>messages := messages (comp sys) @
                     [\<lparr>role = ascii ''assistant'', content = a\<rparr>], isLoading := False\<rparr>" by blast
          then have a: "messages s' = messages (comp sys) @
                     [\<lparr>role = ascii ''assistant'', content = a\<rparr>]" by simp
          with True have "valid_child a" by (simp add: new_messages_def renders_def)
          with a show ?thesis by (simp add: c)
        qed
      next
        case False
        then have "comp (step v e sys) = comp sys" by (auto simp add: Resolve Cons Inr)
        then show ?thesis by simp
      qed
    qed
  qed
qed

lemma run_messages:
  assumes "\<forall>m \<in> set (messages (comp sys)). P m"
    and "\<And>text. trim text \<noteq> [] \<Longrightarrow> P \<lparr>role = ascii ''user'', content = JStr (trim text)\<rparr>"
    and "\<And>c. valid_child c \<Longrightarrow> P \<lparr>role = ascii ''assistant'', content = c\<rparr>"
  shows "\<forall>m \<in> set (messages (comp (run v es sys))). P m"
  using assms(1)
proof (induction es arbitrary: sys)
  case Nil
  then show ?case by simp
next
  case (Cons e es)
  from step_messages [of v e sys] obtain new where
    n: "messages (comp (step v e sys)) = messages (comp sys) @ new" and
    c: "new = [] \<or>
      (\<exists>text. trim text \<noteq> [] \<and> new = [\<lparr>role = ascii ''user'', content = JStr (trim text)\<rparr>]) \<or>
      (\<exists>c. valid_child c \<and> new = [\<lparr>role = ascii ''assistant'', content = c\<rparr>])" by blast
  from c assms(2,3) have "\<forall>m \<in> set new. P m" by auto
  with Cons.prems n have "\<forall>m \<in> set (messages (comp (step v e sys))). P m" by auto
  from Cons.IH [OF this] show ?case by simp
qed

lemma run_renders: "renders (messages (comp (run v es (init v))))"
proof -
  have "\<forall>m \<in> set (messages (comp (run v es (init v)))). valid_child (content m)"
    by (rule run_messages) (simp_all add: init_def initialMessages_def)
  then show ?thesis by (simp add: renders_def list_all_iff)
qed

lemma run_example:
  "run First [Change (ascii ''  hi ''), Submit] (init First) =
     \<lparr>comp = \<lparr>messages = [\<lparr>role = ascii ''assistant'', content = JStr (greeting First)\<rparr>,
                          \<lparr>role = ascii ''user'', content = JStr (ascii ''hi'')\<rparr>],
              input = [], isLoading = True, error = []\<rparr>,
      pending = [\<lparr>url = ascii ''/api/chat'', http_method = ascii ''POST'',
                  headers = [(ascii ''Content-Type'', ascii ''application/json'')],
                  body = JObj [(ascii ''messages'',
                     JArr [JObj [(ascii ''role'', JStr (ascii ''assistant'')),
                                 (ascii ''content'', JStr (greeting First))],
                           JObj [(ascii ''role'', JStr (ascii ''user'')),
                                 (ascii ''content'', JStr (ascii ''hi''))]])]\<rparr>],
      mounted = True\<rparr>"
  by (simp add: init_def initialMessages_def handleSubmit_begin_def Let_def ascii_pad ascii_hi
      api_url_def message_json_def)

section \<open>Rejected submissions\<close>

text \<open>
  Claim C6. When the trimmed input is empty, which is the case exactly when every code unit
  of the input is white space, a submission changes nothing: the synchronous part of
  \<open>handleSubmit\<close> returns the state as it was (transcript, input, status and error) and
  passes no request to \<open>fetch\<close>, the whole call ends in that same state without reaching
  the \<open>catch\<close> block, and the component with its requests in flight is left as it was.
\<close>

theorem blank_submit_is_noop:
  "(trim (input s) = [] \<longleftrightarrow> (\<forall>c \<in> set (input s). is_ws c)) \<and>
   (trim (input s) = [] \<longrightarrow>
      handleSubmit_begin v s = (s, None) \<and>
      handleSubmit v s res = Inr s \<and>
      step v Submit \<lparr>comp = s, pending = reqs, mounted = m\<rparr> =
        \<lparr>comp = s, pending = reqs, mounted = m\<rparr>)"
  by (simp add: trim_empty_iff begin_rejected handleSubmit_def)

theorem blank_submit_is_noop_witness:
  "trim [0x20, 0x3000, 0xA] = [] \<and>
   handleSubmit_begin Second
     \<lparr>messages = initialMessages Second, input = [0x20, 0x3000, 0xA], isLoading = False,
      error = error_message\<rparr> =
     (\<lparr>messages = initialMessages Second, input = [0x20, 0x3000, 0xA], isLoading = False,
       error = error_message\<rparr>, None)"
proof -
  have h: "trim [0x20, 0x3000, 0xA] = []" by (simp add: trim_def is_ws_def)
  show ?thesis
    using h blank_submit_is_noop [of "\<lparr>messages = initialMessages Second,
      input = [0x20, 0x3000, 0xA], isLoading = False, error = error_message\<rparr>" Second]
    by simp
qed

text \<open>
  Claim C2. While \<open>isLoading\<close> is set, a submission changes nothing: the synchronous part
  of \<open>handleSubmit\<close> returns the state as it was and passes no request to \<open>fetch\<close>, and
  the component with its requests in flight is left as it was. In every state the component
  reaches from its initial state, at most one request is in flight; while one is in flight
  the component is mounted and \<open>isLoading\<close> is set; and a mounted component with
  \<open>isLoading\<close> set has a request in flight, so the status falls back only when the request
  returns.
\<close>

theorem loading_blocks_submit:
  "(isLoading s \<longrightarrow>
      handleSubmit_begin v s = (s, None) \<and>
      step v Submit \<lparr>comp = s, pending = reqs, mounted = m\<rparr> =
        \<lparr>comp = s, pending = reqs, mounted = m\<rparr>)
   \<and> length (pending (run v es (init v))) \<le> 1
   \<and> (pending (run v es (init v)) \<noteq> [] \<longrightarrow>
        mounted (run v es (init v)) \<and> isLoading (comp (run v es (init v))))
   \<and> (mounted (run v es (init v)) \<and> isLoading (comp (run v es (init v))) \<longrightarrow>
        pending (run v es (init v)) \<noteq> [])"
proof -
  have 1: "isLoading s \<longrightarrow>
      handleSubmit_begin v s = (s, None) \<and>
      step v Submit \<lparr>comp = s, pending = reqs, mounted = m\<rparr> =
        \<lparr>comp = s, pending = reqs, mounted = m\<rparr>"
    by (simp add: begin_rejected)
  from run_single_flight [OF init_single_flight [of v], of v es]
  have 2: "length (pending (run v es (init v))) \<le> 1
   \<and> (pending (run v es (init v)) \<noteq> [] \<longrightarrow>
        mounted (run v es (init v)) \<and> isLoading (comp (run v es (init v))))
   \<and> (mounted (run v es (init v)) \<and> isLoading (comp (run v es (init v))) \<longrightarrow>
        pending (run v es (init v)) \<noteq> [])"
    by auto
  from 1 2 show ?thesis by blast
qed

theorem loading_blocks_submit_witness:
  "isLoading \<lparr>messages = [], input = ascii ''hi'', isLoading = True, error = []\<rparr> \<and>
   handleSubmit_begin First \<lparr>messages = [], input = ascii ''hi'', isLoading = True, error = []\<rparr> =
     (\<lparr>messages = [], input = ascii ''hi'', isLoading = True, error = []\<rparr>, None) \<and>
   pending (run First [Change (ascii ''  hi ''), Submit] (init First)) \<noteq> [] \<and>
   length (pending (run First [Change (ascii ''  hi ''), Submit] (init First))) \<le> 1 \<and>
   mounted (run First [Change (ascii ''  hi ''), Submit] (init First)) \<and>
   isLoading (comp (run First [Change (ascii ''  hi ''), Submit] (init First)))"
proof -
  have h1: "isLoading \<lparr>messages = [], input = ascii ''hi'', isLoading = True, error = []\<rparr>"
    by simp
  have h2: "pending (run First [Change (ascii ''  hi ''), Submit] (init First)) \<noteq> []"
    by (simp only: run_example) simp
  show ?thesis
    using loading_blocks_submit [of "\<lparr>messages = [], input = ascii ''hi'', isLoading = True, error = []\<rparr>"
        First "[]" True "[Change (ascii ''  hi ''), Submit]"] h1 h2
    by blast
qed

section \<open>Accepted submissions\<close>

text \<open>
  Claim C7. When the trimmed input is not empty and no request is in flight, the
  synchronous part of \<open>handleSubmit\<close> appends one user message to the transcript, empties
  the input and the error, sets \<open>isLoading\<close>, and passes one request to \<open>fetch\<close>: a POST
  to the endpoint of the copy, with content type JSON, whose body is the object with the one
  member \<open>messages\<close> holding the whole new transcript, the new user message last. From a
  component with no request in flight, exactly that request is in flight afterwards.
\<close>

theorem accepted_submit_sends_transcript:
  assumes "trim (input s) \<noteq> []" and "\<not> isLoading s"
  shows "handleSubmit_begin v s =
     (s\<lparr>messages := messages s @ [\<lparr>role = ascii ''user'', content = JStr (trim (input s))\<rparr>],
        input := [], error := [], isLoading := True\<rparr>,
      Some \<lparr>url = api_url v, http_method = ascii ''POST'',
            headers = [(ascii ''Content-Type'', ascii ''application/json'')],
            body = JObj [(ascii ''messages'',
                     JArr (map message_json
                        (messages s @
                         [\<lparr>role = ascii ''user'', content = JStr (trim (input s))\<rparr>])))]\<rparr>)
   \<and> pending (step v Submit \<lparr>comp = s, pending = [], mounted = True\<rparr>) =
       [\<lparr>url = api_url v, http_method = ascii ''POST'',
            headers = [(ascii ''Content-Type'', ascii ''application/json'')],
            body = JObj [(ascii ''messages'',
                     JArr (map message_json
                        (messages s @
                         [\<lparr>role = ascii ''user'', content = JStr (trim (input s))\<rparr>])))]\<rparr>]"
  using assms by (simp add: begin_accepted)

theorem accepted_submit_sends_transcript_witness:
  "trim (ascii '' hi '') \<noteq> [] \<and>
   handleSubmit_begin Second
     \<lparr>messages = [], input = ascii '' hi '', isLoading = False, error = error_message\<rparr> =
     (\<lparr>messages = [\<lparr>role = ascii ''user'', content = JStr (ascii ''hi'')\<rparr>], input = [],
       isLoading = True, error = []\<rparr>,
      Some \<lparr>url = ascii ''http://localhost:8000/api/chat'', http_method = ascii ''POST'',
            headers = [(ascii ''Content-Type'', ascii ''application/json'')],
            body = JObj [(ascii ''messages'',
                     JArr [JObj [(ascii ''role'', JStr (ascii ''user'')),
                                 (ascii ''content'', JStr (ascii ''hi''))]])]\<rparr>)"
proof -
  have t: "trim (ascii '' hi '') = ascii ''hi''" by (simp add: trim_def is_ws_def ascii_def)
  have h1: "trim (input \<lparr>messages = [], input = ascii '' hi '', isLoading = False,
      error = error_message\<rparr>) \<noteq> []"
    by (simp add: t) (simp add: ascii_def)
  have h2: "\<not> isLoading \<lparr>messages = [], input = ascii '' hi '', isLoading = False,
      error = error_message\<rparr>"
    by simp
  show ?thesis
    using accepted_submit_sends_transcript [OF h1 h2, of Second] h1
    by (simp add: t api_url_def message_json_def)
qed

text \<open>
  Claim C10. An accepted submission appends the user message whose content is the trimmed
  input. In every state the component reaches from its initial state, the content of every
  message with role \<open>user\<close> is a non-empty string whose first and last code units are no
  white space.
\<close>

theorem user_message_is_trimmed:
  "(trim (input s) \<noteq> [] \<and> \<not> isLoading s \<longrightarrow>
      messages (fst (handleSubmit_begin v s)) =
        messages s @ [\<lparr>role = ascii ''user'', content = JStr (trim (input s))\<rparr>])
   \<and> (\<forall>m \<in> set (messages (comp (run v es (init v)))).
         role m = ascii ''user'' \<longrightarrow>
         (\<exists>c. content m = JStr c \<and> c \<noteq> [] \<and> \<not> is_ws (hd c) \<and> \<not> is_ws (last c)))"
proof -
  have 1: "trim (input s) \<noteq> [] \<and> \<not> isLoading s \<longrightarrow>
      messages (fst (handleSubmit_begin v s)) =
        messages s @ [\<lparr>role = ascii ''user'', content = JStr (trim (input s))\<rparr>]"
    by (simp add: begin_accepted)
  have 2: "\<forall>m \<in> set (messages (comp (run v es (init v)))).
         role m = ascii ''user'' \<longrightarrow>
         (\<exists>c. content m = JStr c \<and> c \<noteq> [] \<and> \<not> is_ws (hd c) \<and> \<not> is_ws (last c))"
  proof (rule run_messages)
    show "\<forall>m \<in> set (messages (comp (init v))).
         role m = ascii ''user'' \<longrightarrow>
         (\<exists>c. content m = JStr c \<and> c \<noteq> [] \<and> \<not> is_ws (hd c) \<and> \<not> is_ws (last c))"
      using user_neq_assistant by (simp add: init_def initialMessages_def)
  next
    fix t assume "trim t \<noteq> []"
    then show "role \<lparr>role = ascii ''user'', content = JStr (trim t)\<rparr> = ascii ''user'' \<longrightarrow>
         (\<exists>c. content \<lparr>role = ascii ''user'', content = JStr (trim t)\<rparr> = JStr c \<and> c \<noteq> [] \<and>
              \<not> is_ws (hd c) \<and> \<not> is_ws (last c))"
      by (simp add: trim_ends)
  next
    fix c' assume "valid_child c'"
    show "role \<lparr>role = ascii ''assistant'', content = c'\<rparr> = ascii ''user'' \<longrightarrow>
         (\<exists>c. content \<lparr>role = ascii ''assistant'', content = c'\<rparr> = JStr c \<and> c \<noteq> [] \<and>
              \<not> is_ws (hd c) \<and> \<not> is_ws (last c))"
      using user_neq_assistant by simp
  qed
  from 1 2 show ?thesis by blast
qed

theorem user_message_is_trimmed_witness:
  "trim (ascii ''  hi '') = ascii ''hi'' \<and>
   messages (fst (handleSubmit_begin First
      \<lparr>messages = [], input = ascii ''  hi '', isLoading = False, error = []\<rparr>)) =
     [\<lparr>role = ascii ''user'', content = JStr (ascii ''hi'')\<rparr>] \<and>
   \<lparr>role = ascii ''user'', content = JStr (ascii ''hi'')\<rparr>
     \<in> set (messages (comp (run First [Change (ascii ''  hi ''), Submit] (init First)))) \<and>
   \<not> is_ws (hd (ascii ''hi'')) \<and> \<not> is_ws (last (ascii ''hi''))"
proof -
  let ?s = "\<lparr>messages = [], input = ascii ''  hi '', isLoading = False, error = []\<rparr>"
  let ?m = "\<lparr>role = ascii ''user'', content = JStr (ascii ''hi'')\<rparr>"
  have h1: "trim (input ?s) \<noteq> [] \<and> \<not> isLoading ?s" by (simp add: ascii_pad ascii_hi)
  have h2: "?m \<in> set (messages (comp (run First [Change (ascii ''  hi ''), Submit] (init First))))"
    by (simp only: run_example) simp
  have h3: "role ?m = ascii ''user''" by simp
  from user_message_is_trimmed [of ?s First "[Change (ascii ''  hi ''), Submit]"]
  have a: "trim (input ?s) \<noteq> [] \<and> \<not> isLoading ?s \<longrightarrow>
      messages (fst (handleSubmit_begin First ?s)) =
        messages ?s @ [\<lparr>role = ascii ''user'', content = JStr (trim (input ?s))\<rparr>]"
    and b: "\<forall>m \<in> set (messages (comp (run First [Change (ascii ''  hi ''), Submit] (init First)))).
         role m = ascii ''user'' \<longrightarrow>
         (\<exists>c. content m = JStr c \<and> c \<noteq> [] \<and> \<not> is_ws (hd c) \<and> \<not> is_ws (last c))"
    by blast+
  from a h1 have 1: "messages (fst (handleSubmit_begin First ?s)) = [?m]"
    by (simp add: ascii_pad)
  from b h2 h3 have 2: "\<not> is_ws (hd (ascii ''hi'')) \<and> \<not> is_ws (last (ascii ''hi''))"
    by fastforce
  from 1 2 h2 show ?thesis by (simp add: ascii_pad)
qed

section \<open>Failed requests\<close>

text \<open>
  Claim C1. Take an accepted submission (trimmed input not empty, \<open>isLoading\<close> not set)
  whose request fails: \<open>fetch\<close> rejects, or the status is outside 200 to 299, or
  \<open>json()\<close> rejects. Then the call of \<open>handleSubmit\<close> ends in the state whose
  transcript is the old one followed by the user message alone, whose \<open>isLoading\<close> is
  reset, and whose error is the fixed message, which is not empty. The same holds for the
  component over time, whatever is typed while the request is in flight.
\<close>

theorem failed_request_sets_error:
  assumes "trim (input s) \<noteq> []" and "\<not> isLoading s"
    and "res = Rejected \<or>
         (\<exists>status parsed. res = Responded status parsed \<and> (\<not> ok status \<or> parsed = None))"
  shows "handleSubmit v s res =
     Inr (s\<lparr>messages := messages s @ [\<lparr>role = ascii ''user'', content = JStr (trim (input s))\<rparr>],
            input := [], error := error_message, isLoading := False\<rparr>)
     \<and> error_message \<noteq> []
     \<and> (\<exists>inp. run v (Submit # map Change texts @ [Resolve res])
                 \<lparr>comp = s, pending = [], mounted = True\<rparr> =
               \<lparr>comp = s\<lparr>messages := messages s @
                             [\<lparr>role = ascii ''user'', content = JStr (trim (input s))\<rparr>],
                          error := error_message, isLoading := False, input := inp\<rparr>,
                pending = [], mounted = True\<rparr>)"
proof -
  have h: "handleSubmit v s res =
     Inr (s\<lparr>messages := messages s @ [\<lparr>role = ascii ''user'', content = JStr (trim (input s))\<rparr>],
            input := [], error := error_message, isLoading := False\<rparr>)"
    using assms by (auto simp add: handleSubmit_def begin_accepted resume_failed failed_def)
  have "renders (new_messages (fst (handleSubmit_begin v s))
      (s\<lparr>messages := messages s @ [\<lparr>role = ascii ''user'', content = JStr (trim (input s))\<rparr>],
         input := [], error := error_message, isLoading := False\<rparr>))"
    using assms(1,2) by (simp add: begin_accepted new_messages_def renders_def)
  from cycle [OF assms(1,2) h this, of texts] h show ?thesis
    by (simp add: error_message_nonempty)
qed

theorem failed_request_sets_error_witness:
  "trim (ascii ''hi'') \<noteq> [] \<and> \<not> ok 500 \<and>
   handleSubmit First
     \<lparr>messages = initialMessages First, input = ascii ''hi'', isLoading = False, error = []\<rparr>
     (Responded 500 (Some (JObj [(ascii ''reply'', JStr (ascii ''no''))]))) =
   Inr \<lparr>messages = initialMessages First @ [\<lparr>role = ascii ''user'', content = JStr (ascii ''hi'')\<rparr>],
        input = [], isLoading = False, error = error_message\<rparr>"
proof -
  let ?s = "\<lparr>messages = initialMessages First, input = ascii ''hi'', isLoading = False, error = []\<rparr>"
  let ?res = "Responded 500 (Some (JObj [(ascii ''reply'', JStr (ascii ''no''))]))"
  have h1: "trim (input ?s) \<noteq> []" by (simp add: ascii_hi)
  have h2: "\<not> isLoading ?s" by simp
  have k: "\<not> ok 500" by (simp add: ok_def)
  then have h3: "?res = Rejected \<or>
      (\<exists>status parsed. ?res = Responded status parsed \<and> (\<not> ok status \<or> parsed = None))"
    by simp
  show ?thesis
    using failed_request_sets_error [OF h1 h2 h3, of First] k by (simp add: ascii_hi)
qed

section \<open>Successful requests\<close>

text \<open>
  Claim C3, amended. Take an accepted submission whose request comes back with a status
  in 200 to 299 and a body that parses, and whose reply the component can show: in the
  first copy the value \<open>reply ?? message ?? fallback\<close> is a child React accepts (no
  object, no array holding one); in the second copy \<open>content\<close> (or the fallback reply,
  when \<open>content\<close> is nullish) converts to a string without throwing. Then the call of
  \<open>handleSubmit\<close> ends in the state whose transcript is the old one followed by the user
  message and one assistant message, with \<open>isLoading\<close> reset and the error empty. The
  same holds for the component over time, which stays mounted, whatever is typed while the
  request is in flight.
\<close>

theorem successful_request_appends_two:
  assumes "trim (input s) \<noteq> []" and "\<not> isLoading s" and "ok status"
    and "case v of
           First \<Rightarrow>
             valid_child
               (coalesce_lit
                  (coalesce (opt_get data (ascii ''reply'')) (opt_get data (ascii ''message'')))
                  (JStr fallback_reply))
         | Second \<Rightarrow>
             (\<exists>str. ToString (coalesce_lit (opt_get data (ascii ''content'')) (JStr fallback_reply))
                     = Inr str)"
  shows "\<exists>c. handleSubmit v s (Responded status (Some data)) =
           Inr (s\<lparr>messages := messages s @
                   [\<lparr>role = ascii ''user'', content = JStr (trim (input s))\<rparr>,
                    \<lparr>role = ascii ''assistant'', content = c\<rparr>],
                  input := [], error := [], isLoading := False\<rparr>)
         \<and> (\<exists>inp. run v (Submit # map Change texts @ [Resolve (Responded status (Some data))])
                 \<lparr>comp = s, pending = [], mounted = True\<rparr> =
               \<lparr>comp = s\<lparr>messages := messages s @
                             [\<lparr>role = ascii ''user'', content = JStr (trim (input s))\<rparr>,
                              \<lparr>role = ascii ''assistant'', content = c\<rparr>],
                          error := [], isLoading := False, input := inp\<rparr>,
                pending = [], mounted = True\<rparr>)"
proof -
  from assms(4) obtain c where c: "assistant_content v data = Inr c" and vc: "valid_child c"
    by (cases v) (auto simp add: assistant_content_def Let_def)
  let ?s' = "s\<lparr>messages := messages s @
                   [\<lparr>role = ascii ''user'', content = JStr (trim (input s))\<rparr>,
                    \<lparr>role = ascii ''assistant'', content = c\<rparr>],
                  input := [], error := [], isLoading := False\<rparr>"
  have h: "handleSubmit v s (Responded status (Some data)) = Inr ?s'"
    using assms(1,2,3) c by (simp add: handleSubmit_def begin_accepted resume_ok)
  have r: "renders (new_messages (fst (handleSubmit_begin v s)) ?s')"
    using assms(1,2) vc by (simp add: begin_accepted new_messages_def renders_def)
  from cycle [OF assms(1,2) h r, of texts] h show ?thesis
    by (intro exI [of _ c]) simp
qed

theorem successful_request_appends_two_witness:
  "trim (ascii ''hi'') \<noteq> [] \<and> ok 200 \<and>
   handleSubmit Second
     \<lparr>messages = initialMessages Second, input = ascii ''hi'', isLoading = False, error = []\<rparr>
     (Responded 200 (Some (JObj [(ascii ''content'', JStr (ascii ''ok''))]))) =
   Inr \<lparr>messages = initialMessages Second @
          [\<lparr>role = ascii ''user'', content = JStr (ascii ''hi'')\<rparr>,
           \<lparr>role = ascii ''assistant'', content = JStr (ascii ''ok'')\<rparr>],
        input = [], isLoading = False, error = []\<rparr> \<and>
   valid_child (JArr [JStr (ascii ''ok''), JNull]) \<and>
   mounted (run First
     [Submit, Resolve (Responded 200 (Some (JObj [(ascii ''reply'', JArr [JStr (ascii ''ok''), JNull])])))]
     \<lparr>comp = \<lparr>messages = initialMessages First, input = ascii ''hi'', isLoading = False,
              error = []\<rparr>,
      pending = [], mounted = True\<rparr>)"
proof -
  let ?s = "\<lparr>messages = initialMessages Second, input = ascii ''hi'', isLoading = False, error = []\<rparr>"
  let ?data = "JObj [(ascii ''content'', JStr (ascii ''ok''))]"
  let ?s1 = "\<lparr>messages = initialMessages First, input = ascii ''hi'', isLoading = False, error = []\<rparr>"
  let ?data1 = "JObj [(ascii ''reply'', JArr [JStr (ascii ''ok''), JNull])]"
  have h1: "trim (input ?s) \<noteq> []" by (simp add: ascii_hi)
  have h2: "\<not> isLoading ?s" by simp
  have h3: "ok 200" by (simp add: ok_def)
  have h4: "case Second of
           First \<Rightarrow>
             valid_child
               (coalesce_lit
                  (coalesce (opt_get ?data (ascii ''reply'')) (opt_get ?data (ascii ''message'')))
                  (JStr fallback_reply))
         | Second \<Rightarrow>
             (\<exists>str. ToString (coalesce_lit (opt_get ?data (ascii ''content'')) (JStr fallback_reply))
                     = Inr str)"
    by (simp add: coalesce_lit_def)
  have e: "handleSubmit Second ?s (Responded 200 (Some ?data)) =
     Inr \<lparr>messages = initialMessages Second @
          [\<lparr>role = ascii ''user'', content = JStr (ascii ''hi'')\<rparr>,
           \<lparr>role = ascii ''assistant'', content = JStr (ascii ''ok'')\<rparr>],
        input = [], isLoading = False, error = []\<rparr>"
    by (simp add: handleSubmit_def handleSubmit_begin_def handleSubmit_resume_def ascii_hi h3
        assistant_content_def coalesce_lit_def extra_def Let_def)
  have g1: "trim (input ?s1) \<noteq> []" by (simp add: ascii_hi)
  have g2: "\<not> isLoading ?s1" by simp
  have v: "valid_child (JArr [JStr (ascii ''ok''), JNull])" by simp
  have g4: "case First of
           First \<Rightarrow>
             valid_child
               (coalesce_lit
                  (coalesce (opt_get ?data1 (ascii ''reply'')) (opt_get ?data1 (ascii ''message'')))
                  (JStr fallback_reply))
         | Second \<Rightarrow>
             (\<exists>str. ToString (coalesce_lit (opt_get ?data1 (ascii ''content'')) (JStr fallback_reply))
                     = Inr str)"
    by (simp add: coalesce_def coalesce_lit_def)
  from successful_request_appends_two [OF g1 g2 h3 g4, of "[]"]
  have m: "mounted (run First [Submit, Resolve (Responded 200 (Some ?data1))]
     \<lparr>comp = ?s1, pending = [], mounted = True\<rparr>)"
    by (simp del: run.simps) (metis (no_types) system.select_convs(3))
  show ?thesis
    using successful_request_appends_two [OF h1 h2 h3 h4] h3 e v m by (simp add: ascii_hi)
qed

text \<open>
  Without the condition the statement fails in both copies. In the second, for the body
  \<open>{"content": {"toString": null}}\<close> the concatenation \<open>reply + extra\<close> throws. In the
  first, for the body \<open>{"reply": {"a": 1}}\<close> the object is stored as the content and React
  refuses to render it. Either way the component is unmounted, and the last transcript
  rendered holds the user message only, with \<open>isLoading\<close> still set.
\<close>

theorem successful_request_unmounts_counterexample:
  "trim (ascii ''hi'') \<noteq> [] \<and> ok 200 \<and>
   handleSubmit Second
     \<lparr>messages = initialMessages Second, input = ascii ''hi'', isLoading = False, error = []\<rparr>
     (Responded 200 (Some (JObj [(ascii ''content'', JObj [(ascii ''toString'', JNull)])]))) =
   Inl TypeError \<and>
   run Second
     [Submit, Resolve (Responded 200 (Some (JObj [(ascii ''content'', JObj [(ascii ''toString'', JNull)])])))]
     \<lparr>comp = \<lparr>messages = initialMessages Second, input = ascii ''hi'', isLoading = False, error = []\<rparr>,
      pending = [], mounted = True\<rparr> =
   \<lparr>comp = \<lparr>messages = initialMessages Second @ [\<lparr>role = ascii ''user'', content = JStr (ascii ''hi'')\<rparr>],
            input = [], isLoading = True, error = []\<rparr>,
    pending = [], mounted = False\<rparr> \<and>
   run First
     [Submit, Resolve (Responded 200 (Some (JObj [(ascii ''reply'', JObj [(ascii ''a'', JNum (ascii ''1''))])])))]
     \<lparr>comp = \<lparr>messages = initialMessages First, input = ascii ''hi'', isLoading = False, error = []\<rparr>,
      pending = [], mounted = True\<rparr> =
   \<lparr>comp = \<lparr>messages = initialMessages First @ [\<lparr>role = ascii ''user'', content = JStr (ascii ''hi'')\<rparr>],
            input = [], isLoading = True, error = []\<rparr>,
    pending = [], mounted = False\<rparr>"
  by (simp add: handleSubmit_def handleSubmit_begin_def handleSubmit_resume_def ascii_hi ok_def
        assistant_content_def coalesce_def coalesce_lit_def extra_def Let_def
        new_messages_def renders_def)

text \<open>
  Claim C4. In the second copy, when the status is in 200 to 299 and the body has a string
  \<open>content\<close>, the assistant message appended has that string as its content, followed by
  the filtering notice exactly when \<open>is_safe\<close> is the boolean \<open>false\<close>; the notice is
  not empty, so the two contents differ. For the body \<open>{"content": "ok", "is_safe": false}\<close>
  the content is \<open>ok\<close> followed by the notice.
\<close>

theorem filter_notice_iff_unsafe:
  assumes "ok status" and "opt_get data (ascii ''content'') = Some (JStr c)"
  shows "handleSubmit_resume Second (Responded status (Some data)) s =
     Inr (s\<lparr>messages := messages s @
             [\<lparr>role = ascii ''assistant'',
               content = JStr (if opt_get data (ascii ''is_safe'') = Some (JBool False)
                               then c @ filter_notice else c)\<rparr>],
            isLoading := False\<rparr>)
     \<and> c @ filter_notice \<noteq> c
     \<and> assistant_content Second
           (JObj [(ascii ''content'', JStr (ascii ''ok'')), (ascii ''is_safe'', JBool False)]) =
         Inr (JStr (ascii ''ok'' @ filter_notice))"
proof -
  have "assistant_content Second data =
      Inr (JStr (if opt_get data (ascii ''is_safe'') = Some (JBool False)
                 then c @ filter_notice else c))"
    using assms(2) by (simp add: assistant_content_def coalesce_lit_def extra_def)
  from resume_ok [OF assms(1) this] have 1: "handleSubmit_resume Second (Responded status (Some data)) s =
     Inr (s\<lparr>messages := messages s @
             [\<lparr>role = ascii ''assistant'',
               content = JStr (if opt_get data (ascii ''is_safe'') = Some (JBool False)
                               then c @ filter_notice else c)\<rparr>],
            isLoading := False\<rparr>)" .
  have 2: "c @ filter_notice \<noteq> c" by (simp add: filter_notice_nonempty)
  have 3: "assistant_content Second
           (JObj [(ascii ''content'', JStr (ascii ''ok'')), (ascii ''is_safe'', JBool False)]) =
         Inr (JStr (ascii ''ok'' @ filter_notice))"
    by (simp add: assistant_content_def coalesce_lit_def extra_def ascii_def)
  from 1 2 3 show ?thesis by blast
qed

theorem filter_notice_iff_unsafe_witness:
  "ok 200 \<and>
   handleSubmit_resume Second
     (Responded 200 (Some (JObj [(ascii ''content'', JStr (ascii ''ok'')), (ascii ''is_safe'', JBool True)])))
     \<lparr>messages = [], input = [], isLoading = True, error = []\<rparr> =
   Inr \<lparr>messages = [\<lparr>role = ascii ''assistant'', content = JStr (ascii ''ok'')\<rparr>],
        input = [], isLoading = False, error = []\<rparr>"
proof -
  let ?data = "JObj [(ascii ''content'', JStr (ascii ''ok'')), (ascii ''is_safe'', JBool True)]"
  have h1: "ok 200" by (simp add: ok_def)
  have h2: "opt_get ?data (ascii ''content'') = Some (JStr (ascii ''ok''))" by simp
  have n: "opt_get ?data (ascii ''is_safe'') \<noteq> Some (JBool False)" by (simp add: ascii_def)
  show ?thesis
    using filter_notice_iff_unsafe [OF h1 h2, of "\<lparr>messages = [], input = [], isLoading = True, error = []\<rparr>"] h1 n
    by simp
qed

text \<open>
  Claim C5. In the first copy, when the status is in 200 to 299 and the body parses, one
  assistant message is appended; its content is the value of \<open>reply\<close> when that is
  neither \<open>undefined\<close> nor \<open>null\<close>, whatever \<open>message\<close> holds, and otherwise the value
  of \<open>message\<close> when that is neither \<open>undefined\<close> nor \<open>null\<close>. For the body
  \<open>{"reply": "hi"}\<close> the content is \<open>hi\<close>.
\<close>

theorem reply_field_wins:
  assumes "ok status"
  shows "(\<exists>c. handleSubmit_resume First (Responded status (Some data)) s =
           Inr (s\<lparr>messages := messages s @ [\<lparr>role = ascii ''assistant'', content = c\<rparr>],
                  isLoading := False\<rparr>)
         \<and> (\<forall>r. opt_get data (ascii ''reply'') = Some r \<and> r \<noteq> JNull \<longrightarrow> c = r)
         \<and> (\<forall>m. nullish (opt_get data (ascii ''reply'')) \<and>
                 opt_get data (ascii ''message'') = Some m \<and> m \<noteq> JNull \<longrightarrow> c = m))
         \<and> assistant_content First (JObj [(ascii ''reply'', JStr (ascii ''hi''))]) =
             Inr (JStr (ascii ''hi''))"
proof -
  let ?c = "coalesce_lit
              (coalesce (opt_get data (ascii ''reply'')) (opt_get data (ascii ''message'')))
              (JStr fallback_reply)"
  have a: "assistant_content First data = Inr ?c" by (simp add: assistant_content_def)
  note 1 = resume_ok [OF assms a, of s]
  have 2: "\<forall>r. opt_get data (ascii ''reply'') = Some r \<and> r \<noteq> JNull \<longrightarrow> ?c = r"
    by (auto simp add: coalesce_def coalesce_lit_def split: json.splits elim: nullish.elims)
  have 3: "\<forall>m. nullish (opt_get data (ascii ''reply'')) \<and>
                 opt_get data (ascii ''message'') = Some m \<and> m \<noteq> JNull \<longrightarrow> ?c = m"
    by (auto simp add: coalesce_def coalesce_lit_def split: json.splits)
  have 4: "assistant_content First (JObj [(ascii ''reply'', JStr (ascii ''hi''))]) =
             Inr (JStr (ascii ''hi''))"
    by (simp add: assistant_content_def coalesce_def coalesce_lit_def)
  from 1 2 3 4 show ?thesis by blast
qed

theorem reply_field_wins_witness:
  "ok 200 \<and>
   handleSubmit_resume First
     (Responded 200 (Some (JObj [(ascii ''message'', JStr (ascii ''m'')), (ascii ''reply'', JStr (ascii ''hi''))])))
     \<lparr>messages = [], input = [], isLoading = True, error = []\<rparr> =
   Inr \<lparr>messages = [\<lparr>role = ascii ''assistant'', content = JStr (ascii ''hi'')\<rparr>],
        input = [], isLoading = False, error = []\<rparr>"
proof -
  let ?data = "JObj [(ascii ''message'', JStr (ascii ''m'')), (ascii ''reply'', JStr (ascii ''hi''))]"
  let ?s = "\<lparr>messages = [], input = [], isLoading = True, error = []\<rparr>"
  have h1: "ok 200" by (simp add: ok_def)
  have g: "opt_get ?data (ascii ''reply'') = Some (JStr (ascii ''hi'')) \<and> JStr (ascii ''hi'') \<noteq> JNull"
    by (simp add: ascii_def)
  from reply_field_wins [OF h1, of ?data ?s] obtain c where
    1: "handleSubmit_resume First (Responded 200 (Some ?data)) ?s =
           Inr (?s\<lparr>messages := messages ?s @ [\<lparr>role = ascii ''assistant'', content = c\<rparr>],
                  isLoading := False\<rparr>)"
    and 2: "\<forall>r. opt_get ?data (ascii ''reply'') = Some r \<and> r \<noteq> JNull \<longrightarrow> c = r"
    by blast
  from 2 g have "c = JStr (ascii ''hi'')" by blast
  with 1 h1 show ?thesis by simp
qed

text \<open>
  Claim C9, amended. Take an accepted submission whose request comes back with a status in
  200 to 299 and a body that parses but names no reply (\<open>reply\<close> and \<open>message\<close> nullish
  in the first copy, \<open>content\<close> nullish in the second). Then \<open>handleSubmit\<close> does not
  reach the \<open>catch\<close> block: it appends the user message and an assistant message whose
  content is the fallback reply, followed in the second copy by the filtering notice when
  \<open>is_safe\<close> is the boolean \<open>false\<close>; \<open>isLoading\<close> is reset and the error is empty.
\<close>

theorem missing_reply_uses_fallback:
  assumes "trim (input s) \<noteq> []" and "\<not> isLoading s" and "ok status"
    and "case v of First \<Rightarrow> nullish (opt_get data (ascii ''reply'')) \<and>
                            nullish (opt_get data (ascii ''message''))
                 | Second \<Rightarrow> nullish (opt_get data (ascii ''content''))"
  shows "handleSubmit v s (Responded status (Some data)) =
     Inr (s\<lparr>messages := messages s @
             [\<lparr>role = ascii ''user'', content = JStr (trim (input s))\<rparr>,
              \<lparr>role = ascii ''assistant'',
               content = JStr (if v = Second \<and> opt_get data (ascii ''is_safe'') = Some (JBool False)
                               then fallback_reply @ filter_notice else fallback_reply)\<rparr>],
            input := [], error := [], isLoading := False\<rparr>)"
proof -
  have n: "nullish a \<Longrightarrow> coalesce_lit a b = b" for a b
    by (cases a rule: nullish.cases) (simp_all add: coalesce_lit_def)
  have "assistant_content v data =
      Inr (JStr (if v = Second \<and> opt_get data (ascii ''is_safe'') = Some (JBool False)
                 then fallback_reply @ filter_notice else fallback_reply))"
    using assms(4) by (cases v) (simp_all add: assistant_content_def coalesce_def n extra_def)
  then show ?thesis
    using assms(1,2,3) by (simp add: handleSubmit_def begin_accepted resume_ok)
qed

theorem missing_reply_uses_fallback_witness:
  "trim (ascii ''hi'') \<noteq> [] \<and> ok 200 \<and>
   handleSubmit First
     \<lparr>messages = [], input = ascii ''hi'', isLoading = False, error = error_message\<rparr>
     (Responded 200 (Some (JObj [(ascii ''reply'', JNull)]))) =
   Inr \<lparr>messages = [\<lparr>role = ascii ''user'', content = JStr (ascii ''hi'')\<rparr>,
                    \<lparr>role = ascii ''assistant'', content = JStr fallback_reply\<rparr>],
        input = [], isLoading = False, error = []\<rparr>"
proof -
  let ?s = "\<lparr>messages = [], input = ascii ''hi'', isLoading = False, error = error_message\<rparr>"
  let ?data = "JObj [(ascii ''reply'', JNull)]"
  have h1: "trim (input ?s) \<noteq> []" by (simp add: ascii_hi)
  have h2: "\<not> isLoading ?s" by simp
  have h3: "ok 200" by (simp add: ok_def)
  have h4: "case First of First \<Rightarrow> nullish (opt_get ?data (ascii ''reply'')) \<and>
                            nullish (opt_get ?data (ascii ''message''))
                 | Second \<Rightarrow> nullish (opt_get ?data (ascii ''content''))"
    by (simp add: ascii_def)
  show ?thesis
    using missing_reply_uses_fallback [OF h1 h2 h3 h4] h3 by (simp add: ascii_hi)
qed

text \<open>
  The content is not always the fallback reply alone: in the second copy the body
  \<open>{"is_safe": false}\<close> gives the fallback reply followed by the filtering notice.
\<close>

theorem missing_reply_gets_notice_counterexample:
  "trim (ascii ''hi'') \<noteq> [] \<and> ok 200 \<and>
   nullish (opt_get (JObj [(ascii ''is_safe'', JBool False)]) (ascii ''content'')) \<and>
   handleSubmit Second
     \<lparr>messages = [], input = ascii ''hi'', isLoading = False, error = []\<rparr>
     (Responded 200 (Some (JObj [(ascii ''is_safe'', JBool False)]))) =
   Inr \<lparr>messages = [\<lparr>role = ascii ''user'', content = JStr (ascii ''hi'')\<rparr>,
                    \<lparr>role = ascii ''assistant'', content = JStr (fallback_reply @ filter_notice)\<rparr>],
        input = [], isLoading = False, error = []\<rparr> \<and>
   JStr (fallback_reply @ filter_notice) \<noteq> JStr fallback_reply"
  by (simp add: handleSubmit_def handleSubmit_begin_def handleSubmit_resume_def ascii_hi ok_def
        assistant_content_def coalesce_lit_def extra_def Let_def filter_notice_nonempty)
     (simp add: ascii_def)

section \<open>The transcript\<close>

text \<open>
  Claim C8. The transcript starts as the one assistant greeting. Every event leaves the
  transcript it finds as a prefix of the transcript it produces, from any state. In every
  state the component reaches from its initial state, the role of every message is
  \<open>user\<close> or \<open>assistant\<close>.
\<close>

theorem transcript_append_only:
  "messages (comp (init v)) = [\<lparr>role = ascii ''assistant'', content = JStr (greeting v)\<rparr>]
   \<and> prefix (messages (comp sys)) (messages (comp (step v e sys)))
   \<and> (\<forall>m \<in> set (messages (comp (run v es (init v)))).
         role m = ascii ''user'' \<or> role m = ascii ''assistant'')"
proof -
  have 1: "messages (comp (init v)) = [\<lparr>role = ascii ''assistant'', content = JStr (greeting v)\<rparr>]"
    by (simp add: init_def initialMessages_def)
  from step_messages [of v e sys]
  have 2: "prefix (messages (comp sys)) (messages (comp (step v e sys)))"
    by (auto simp add: prefix_def)
  have 3: "\<forall>m \<in> set (messages (comp (run v es (init v)))).
         role m = ascii ''user'' \<or> role m = ascii ''assistant''"
    by (rule run_messages) (simp_all add: 1)
  from 1 2 3 show ?thesis by blast
qed

theorem transcript_append_only_witness:
  "\<lparr>role = ascii ''user'', content = JStr (ascii ''hi'')\<rparr>
     \<in> set (messages (comp (run First [Change (ascii ''  hi ''), Submit] (init First)))) \<and>
   (role \<lparr>role = ascii ''user'', content = JStr (ascii ''hi'')\<rparr> = ascii ''user'' \<or>
    role \<lparr>role = ascii ''user'', content = JStr (ascii ''hi'')\<rparr> = ascii ''assistant'') \<and>
   prefix (messages (comp (init First)))
     (messages (comp (step First (Resolve Rejected) (init First))))"
proof -
  have h: "\<lparr>role = ascii ''user'', content = JStr (ascii ''hi'')\<rparr>
     \<in> set (messages (comp (run First [Change (ascii ''  hi ''), Submit] (init First))))"
    by (simp only: run_example) simp
  show ?thesis
    using transcript_append_only [of First "init First" "Resolve Rejected"
        "[Change (ascii ''  hi ''), Submit]"] h
    by blast
qed

end
